theory Spec2Isabelle
  imports Complex_Main "HOL-Library.Sublist"
begin

section \<open>Python floats: IEEE 754 binary64 with round-to-nearest-even\<close>

text \<open>
  The \<open>age\<close> field of the device and three of the configuration values are Python
  floats, that is IEEE 754 binary64 numbers. Every finite binary64 number is an integer
  multiple of \<open>2 ^ -1074\<close>, the smallest subnormal: \<open>Fin k\<close> stands for the number
  \<open>k * 2 ^ -1074\<close>, so \<open>Fin 0\<close> is \<open>0.0\<close> and \<open>Fin (2 ^ 1074)\<close> is \<open>1.0\<close>.
  The other constructors are the negative zero, the two infinities and the NaN.
\<close>

datatype double = Fin int | NegZero | PInf | NInf | NaN

text \<open>The number of bits of a positive integer (Python's \<open>int.bit_length\<close>).\<close>

function bit_length :: "int \<Rightarrow> nat" where
  "bit_length n = (if n \<le> 0 then 0 else Suc (bit_length (n div 2)))"
  by pat_completeness auto
termination
  by (relation "measure nat") auto

declare bit_length.simps [simp del]

text \<open>
  A binary64 significand has 53 bits. A magnitude \<open>a\<close> (in units of \<open>2 ^ -1074\<close>) with
  more than 53 bits is representable only if its low \<open>bit_length a - 53\<close> bits are zero;
  with at most 53 bits it is a subnormal or lies in the lowest normal binade, where the
  spacing is one unit.
\<close>

definition ulp_shift :: "int \<Rightarrow> nat" where
  "ulp_shift a = bit_length a - 53"

definition round_half_even :: "int \<Rightarrow> int \<Rightarrow> int" where
  "round_half_even a p =
     (let q = a div p; r = a mod p
      in if 2 * r < p \<or> (2 * r = p \<and> even q) then q * p else (q + 1) * p)"

text \<open>
  Rounding of an exact result \<open>k * 2 ^ -1074\<close> to binary64: to the nearest representable
  magnitude, ties to the even significand; a rounded magnitude of \<open>2 ^ 1024\<close> or more
  (\<open>2 ^ 2098\<close> units) overflows to the infinity of the same sign.
\<close>

definition round_double :: "int \<Rightarrow> double" where
  "round_double k =
     (let a = \<bar>k\<bar>; v = round_half_even a (2 ^ ulp_shift a)
      in if 2 ^ 2098 \<le> v then (if k < 0 then NInf else PInf)
         else Fin (if k < 0 then - v else v))"

text \<open>The representable values: what a Python float can hold.\<close>

fun is_double :: "double \<Rightarrow> bool" where
  "is_double (Fin k) = (\<bar>k\<bar> mod 2 ^ ulp_shift \<bar>k\<bar> = 0 \<and> \<bar>k\<bar> < 2 ^ 2098)"
| "is_double _ = True"

text \<open>
  Float addition (\<open>float.__add__\<close>): NaN is absorbing, opposite infinities give NaN,
  \<open>-0.0 + -0.0\<close> is \<open>-0.0\<close>, and two finite numbers give their exact sum rounded (an exact
  sum of zero is \<open>+0.0\<close>).
\<close>

fun fadd :: "double \<Rightarrow> double \<Rightarrow> double" where
  "fadd NaN y = NaN"
| "fadd x NaN = NaN"
| "fadd PInf NInf = NaN"
| "fadd NInf PInf = NaN"
| "fadd PInf y = PInf"
| "fadd x PInf = PInf"
| "fadd NInf y = NInf"
| "fadd x NInf = NInf"
| "fadd NegZero NegZero = NegZero"
| "fadd NegZero (Fin b) = Fin b"
| "fadd (Fin a) NegZero = Fin a"
| "fadd (Fin a) (Fin b) = round_double (a + b)"

text \<open>The comparison \<open>x <= y\<close> of two floats: false whenever a NaN is involved.\<close>

fun units :: "double \<Rightarrow> int" where
  "units (Fin k) = k"
| "units _ = 0"


text \<open>The real number a finite float stands for.\<close>

definition dval :: "double \<Rightarrow> real" where
  "dval x = real_of_int (units x) / 2 ^ 1074"

text \<open>
  Float literals are written \<open>scaled m e\<close>, the number \<open>m * 2 ^ e\<close> in units of
  \<open>2 ^ -1074\<close>, that is \<open>m * 2 ^ (e - 1074)\<close>: \<open>1.0\<close> is \<open>1 * 2 ^ 0\<close>, \<open>0.1\<close> is the
  binary64 number \<open>3602879701896397 * 2 ^ -55\<close> and \<open>0.15\<close> is \<open>5404319552844595 * 2 ^ -55\<close>.
\<close>

definition scaled :: "int \<Rightarrow> nat \<Rightarrow> double" where
  "scaled m e = Fin (m * 2 ^ e)"

definition f_zero :: double where
  "f_zero = Fin 0"

definition f_one :: double where
  "f_one = scaled 1 1074"

definition f_tenth :: double where
  "f_tenth = scaled 3602879701896397 1019"

definition f_fifteen_hundredths :: double where
  "f_fifteen_hundredths = scaled 5404319552844595 1019"


section \<open>The device stub (century\_life.py)\<close>

text \<open>Python values that occur in the snapshot and in the configuration.\<close>

datatype pyval = PyStr string | PyInt int | PyFloat double

record device =
  age :: double
  stage :: string

text \<open>\<open>__init__\<close>: a fresh device.\<close>

definition init :: device where
  "init = \<lparr>age = f_zero, stage = ''Neonate''\<rparr>"

text \<open>
  \<open>tick(self, dt=1.0)\<close>: the argument is optional (\<open>None\<close> is the call \<open>tick()\<close>); the
  method updates \<open>age\<close> in place and returns a fresh dict. The model returns the updated
  device together with the dict. The argument is a float, as its default is; an integer
  argument within the float range acts as the float it converts to.
\<close>

definition tick :: "double option \<Rightarrow> device \<Rightarrow> device \<times> (string \<rightharpoonup> pyval)" where
  "tick dt_arg self =
     (let dt = (case dt_arg of None \<Rightarrow> f_one | Some v \<Rightarrow> v);
          self' = self\<lparr>age := fadd (age self) dt\<rparr>
      in (self', [''age'' \<mapsto> PyFloat (age self'), ''stage'' \<mapsto> PyStr (stage self')]))"

text \<open>A sequence of calls on one device, in order.\<close>

fun ticks :: "double option list \<Rightarrow> device \<Rightarrow> device" where
  "ticks [] self = self"
| "ticks (a # as) self = ticks as (fst (tick a self))"


section \<open>The configuration loader (config.py)\<close>

text \<open>
  The process environment \<open>os.environ\<close> maps names to strings. \<open>load_dotenv()\<close> belongs
  to the python-dotenv package: called without arguments it looks for a \<open>.env\<close> file and
  sets every variable the file defines that the environment does not define yet (it never
  overrides). Its first argument here is the content of the file it finds, as the map
  from names to values (the empty map when there is no file); locating and parsing the
  file is not modelled.
\<close>

type_synonym environ = "string \<rightharpoonup> string"

definition load_dotenv :: "environ \<Rightarrow> environ \<Rightarrow> environ" where
  "load_dotenv dotenv env = dotenv ++ env"

text \<open>\<open>os.getenv(key, default)\<close>: the variable's string, or the default object as it is.\<close>

definition getenv :: "environ \<Rightarrow> string \<Rightarrow> pyval \<Rightarrow> pyval" where
  "getenv env key dflt = (case env key of Some s \<Rightarrow> PyStr s | None \<Rightarrow> dflt)"

datatype pyerror =
  ValueError | OverflowError | FileNotFoundError | FileExistsError | NotADirectoryError

text \<open>
  \<open>float(n)\<close> of an integer rounds to the nearest float and raises OverflowError beyond
  the float range.
\<close>

definition float_of_int :: "int \<Rightarrow> pyerror + double" where
  "float_of_int n =
     (case round_double (n * 2 ^ 1074) of
        PInf \<Rightarrow> Inl OverflowError
      | NInf \<Rightarrow> Inl OverflowError
      | d \<Rightarrow> Inr d)"

text \<open>
  The built-in coercions \<open>float(x)\<close> and \<open>int(x)\<close>. Parsing a string is Python's own
  (\<open>float_of_str\<close>, \<open>int_of_str\<close>: \<open>None\<close> for a string that does not denote a number)
  and is a parameter; a string that does not parse raises ValueError. \<open>int\<close> of a float
  truncates towards zero.
\<close>

fun py_float :: "(string \<Rightarrow> double option) \<Rightarrow> pyval \<Rightarrow> pyerror + double" where
  "py_float float_of_str (PyStr s) =
     (case float_of_str s of None \<Rightarrow> Inl ValueError | Some d \<Rightarrow> Inr d)"
| "py_float float_of_str (PyInt n) = float_of_int n"
| "py_float float_of_str (PyFloat d) = Inr d"

fun py_int :: "(string \<Rightarrow> int option) \<Rightarrow> pyval \<Rightarrow> pyerror + int" where
  "py_int int_of_str (PyStr s) =
     (case int_of_str s of None \<Rightarrow> Inl ValueError | Some n \<Rightarrow> Inr n)"
| "py_int int_of_str (PyInt n) = Inr n"
| "py_int int_of_str (PyFloat d) =
     (case d of
        Fin k \<Rightarrow> Inr (sgn k * (\<bar>k\<bar> div 2 ^ 1074))
      | NegZero \<Rightarrow> Inr 0
      | NaN \<Rightarrow> Inl ValueError
      | _ \<Rightarrow> Inl OverflowError)"

record config =
  CENTURY_REAL_SEC :: double
  BURST_CAP_PER_HOUR :: double
  STASIS_FILL_RATE :: double
  STASIS_MAX_HOURS :: int
  VFS_PATH :: pyval
  LOG_PATH :: pyval
  SKIN_MODE :: pyval

text \<open>
  The module body, statement by statement: \<open>load_dotenv()\<close>, then the seven assignments.
  There is no \<open>try\<close> in the module, so the first coercion that raises ends the import
  with that exception (\<open>Inl\<close>).
\<close>

definition config_module ::
  "(string \<Rightarrow> double option) \<Rightarrow> (string \<Rightarrow> int option) \<Rightarrow> environ \<Rightarrow> environ
     \<Rightarrow> pyerror + config" where
  "config_module float_of_str int_of_str dotenv env0 =
     (let env = load_dotenv dotenv env0 in
      case py_float float_of_str (getenv env ''CENTURY_REAL_SEC'' (PyInt 2592000)) of
        Inl e \<Rightarrow> Inl e
      | Inr century \<Rightarrow>
      case py_float float_of_str (getenv env ''BURST_CAP_PER_HOUR'' (PyFloat f_one)) of
        Inl e \<Rightarrow> Inl e
      | Inr burst \<Rightarrow>
      case py_float float_of_str
             (getenv env ''STASIS_FILL_RATE'' (PyFloat f_fifteen_hundredths)) of
        Inl e \<Rightarrow> Inl e
      | Inr fill \<Rightarrow>
      case py_int int_of_str (getenv env ''STASIS_MAX_HOURS'' (PyInt 72)) of
        Inl e \<Rightarrow> Inl e
      | Inr hours \<Rightarrow>
          Inr \<lparr>CENTURY_REAL_SEC = century, BURST_CAP_PER_HOUR = burst,
               STASIS_FILL_RATE = fill, STASIS_MAX_HOURS = hours,
               VFS_PATH = getenv env ''VFS_PATH'' (PyStr ''./vfs''),
               LOG_PATH = getenv env ''LOG_PATH'' (PyStr ''./logs''),
               SKIN_MODE = getenv env ''SKIN_MODE'' (PyStr ''BSS'')\<rparr>)"

text \<open>The names the module reads.\<close>

definition config_keys :: "string list" where
  "config_keys = [''CENTURY_REAL_SEC'', ''BURST_CAP_PER_HOUR'', ''STASIS_FILL_RATE'',
     ''STASIS_MAX_HOURS'', ''VFS_PATH'', ''LOG_PATH'', ''SKIN_MODE'']"

text \<open>
  The defaults as the specification states them: \<open>2592000.0\<close>, \<open>1.0\<close>, \<open>0.15\<close>, \<open>72\<close>,
  \<open>"./vfs"\<close>, \<open>"./logs"\<close> and \<open>"BSS"\<close>.
\<close>

definition default_config :: config where
  "default_config =
     \<lparr>CENTURY_REAL_SEC = scaled 2592000 1074, BURST_CAP_PER_HOUR = f_one,
      STASIS_FILL_RATE = f_fifteen_hundredths, STASIS_MAX_HOURS = 72,
      VFS_PATH = PyStr ''./vfs'', LOG_PATH = PyStr ''./logs'', SKIN_MODE = PyStr ''BSS''\<rparr>"




section \<open>The bootstrap directories (main.py)\<close>















section \<open>Rounding: bounds, error and monotonicity\<close>

subsection \<open>Bit lengths\<close>

lemma bit_length_nonpos [simp]: "n \<le> 0 \<Longrightarrow> bit_length n = 0"
  by (simp add: bit_length.simps)

lemma bit_length_pos: "0 < n \<Longrightarrow> bit_length n = Suc (bit_length (n div 2))"
  by (subst bit_length.simps) simp

text \<open>
  A positive integer of \<open>n\<close> bits lies in \<open>[2 ^ (n - 1), 2 ^ n)\<close>.
\<close>

lemma bit_length_bounds:
  "0 < n \<Longrightarrow> 2 ^ (bit_length n - 1) \<le> n \<and> n < 2 ^ bit_length n"
proof (induction n rule: bit_length.induct)
  case (1 n)
  show ?case
  proof (cases "n = 1")
    case True
    then show ?thesis by (simp add: bit_length_pos)
  next
    case False
    with 1(2) have h: "0 < n div 2" by simp
    from 1(1) h 1(2) have ih: "2 ^ (bit_length (n div 2) - 1) \<le> n div 2 \<and> n div 2 < 2 ^ bit_length (n div 2)"
      by simp
    from h have "0 < bit_length (n div 2)" by (simp add: bit_length_pos)
    then obtain j where j: "bit_length (n div 2) = Suc j" by (cases "bit_length (n div 2)") auto
    from ih j have "2 * 2 ^ j \<le> 2 * (n div 2)" "2 * (n div 2) + 1 < 2 * 2 ^ Suc j" by auto
    then show ?thesis using 1(2) j by (simp add: bit_length_pos) linarith
  qed
qed


lemma bit_length_lt_pow2:
  assumes "0 \<le> v" and "v < 2 ^ n"
  shows "bit_length v \<le> n"
proof (cases "0 < v")
  case False
  then show ?thesis by simp
next
  case True
  from bit_length_bounds[OF True] assms(2) have "(2::int) ^ (bit_length v - 1) < 2 ^ n" by linarith
  then have "bit_length v - 1 < n" by (simp add: power_strict_increasing_iff)
  then show ?thesis by simp
qed

lemma bit_length_scaled: "0 < m \<Longrightarrow> bit_length (m * 2 ^ e) = bit_length m + e"
proof (induction e)
  case 0
  then show ?case by simp
next
  case (Suc e)
  then have "0 < m * 2 ^ Suc e" by simp
  then have "bit_length (m * 2 ^ Suc e) = Suc (bit_length (m * 2 ^ Suc e div 2))"
    by (rule bit_length_pos)
  also have "m * 2 ^ Suc e div 2 = m * 2 ^ e" by simp
  finally show ?case using Suc by simp
qed

lemma bit_length_1: "bit_length 1 = 1"
  by code_simp

lemma bit_length_pow2: "bit_length (2 ^ n) = Suc n"
  using bit_length_scaled[of 1 n] by (simp add: bit_length_1)




lemma pow2_dvd_pow2: "m \<le> n \<Longrightarrow> (2::int) ^ m dvd 2 ^ n"
  by (simp add: le_imp_power_dvd)

subsection \<open>Rounding to a multiple of the spacing\<close>

lemma rhe_lower: "0 < p \<Longrightarrow> (a div p) * p \<le> round_half_even a p"
  by (simp add: round_half_even_def Let_def)

text \<open>
  Rounding to a multiple of the spacing \<open>p\<close> never crosses a multiple of \<open>p\<close>, is exact
  on multiples, and is off by at most half the spacing.
\<close>

lemma rhe_ge: "0 < p \<Longrightarrow> p dvd g \<Longrightarrow> g \<le> m \<Longrightarrow> g \<le> round_half_even m p"
proof -
  assume p: "0 < p" and d: "p dvd g" and le: "g \<le> m"
  from d obtain j where j: "g = p * j" by (auto simp: dvd_def)
  have "g div p \<le> m div p" using le p by (simp add: zdiv_mono1)
  with j p have "j \<le> m div p" by simp
  then have "g \<le> (m div p) * p" using j p by (simp add: mult.commute)
  with rhe_lower[OF p, of m] show ?thesis by simp
qed

lemma rhe_exact: "0 < p \<Longrightarrow> p dvd m \<Longrightarrow> round_half_even m p = m"
  by (auto simp add: round_half_even_def Let_def)

lemma rhe_le: "0 < p \<Longrightarrow> p dvd g \<Longrightarrow> m \<le> g \<Longrightarrow> round_half_even m p \<le> g"
proof -
  assume p: "0 < p" and d: "p dvd g" and le: "m \<le> g"
  show ?thesis
  proof (cases "p dvd m")
    case True
    then show ?thesis using rhe_exact[OF p True] le by simp
  next
    case False
    from d obtain j where j: "g = p * j" by (auto simp: dvd_def)
    have mp: "0 < m mod p" using False p
      by (metis dvd_eq_mod_eq_0 less_le pos_mod_sign)
    have "(m div p) * p < m" using mp by (metis add.commute div_mult_mod_eq less_add_same_cancel2)
    with le j have "(m div p) * p < j * p" by (simp add: mult.commute)
    with p have "m div p < j" by simp
    then have "(m div p + 1) * p \<le> j * p" using p by (simp add: mult_right_mono)
    moreover have "round_half_even m p \<le> (m div p + 1) * p"
      using p by (simp add: round_half_even_def Let_def distrib_right)
    ultimately show ?thesis using j by (simp add: mult.commute)
  qed
qed


lemma rhe_scaled:
  assumes p: "0 < p" and c: "0 < c"
  shows "round_half_even (m * c) (p * c) = round_half_even m p * c"
proof -
  have d: "(m * c) div (p * c) = m div p" using c by simp
  have r: "(m * c) mod (p * c) = (m mod p) * c" using c by simp
  have l: "2 * (m mod p * c) < p * c \<longleftrightarrow> 2 * (m mod p) < p"
    using c by (metis mult.assoc mult_less_cancel_right_pos)
  have q: "2 * (m mod p * c) = p * c \<longleftrightarrow> 2 * (m mod p) = p"
    using c by (metis mult.assoc mult_cancel_right less_irrefl)
  show ?thesis
    by (simp add: round_half_even_def Let_def d r l q)
qed

lemma rhe_upper: "0 \<le> m \<Longrightarrow> round_half_even m (2 ^ ulp_shift m) \<le> 2 ^ bit_length m"
proof -
  assume m: "0 \<le> m"
  have mlt: "m \<le> 2 ^ bit_length m"
  proof (cases "0 < m")
    case True then show ?thesis using bit_length_bounds[OF True] by simp
  next
    case False with m show ?thesis by simp
  qed
  have "ulp_shift m \<le> bit_length m" by (simp add: ulp_shift_def)
  then have "(2::int) ^ ulp_shift m dvd 2 ^ bit_length m" by (rule pow2_dvd_pow2)
  then show ?thesis using mlt by (intro rhe_le) simp_all
qed

lemma rhe_nonneg: "0 \<le> m \<Longrightarrow> 0 \<le> round_half_even m (2 ^ ulp_shift m)"
  using rhe_ge[of "2 ^ ulp_shift m" 0 m] by simp




lemma round_magnitude_scaled:
  assumes m: "0 < m"
  shows "round_half_even (m * 2 ^ e) (2 ^ ulp_shift (m * 2 ^ e)) =
         round_half_even m (2 ^ ulp_shift m) * 2 ^ e"
proof (cases "53 \<le> bit_length m")
  case True
  then have "ulp_shift (m * 2 ^ e) = ulp_shift m + e"
    using m by (simp add: ulp_shift_def bit_length_scaled)
  then show ?thesis by (simp add: power_add rhe_scaled)
next
  case False
  then have s: "ulp_shift m = 0" by (simp add: ulp_shift_def)
  from False have "ulp_shift (m * 2 ^ e) \<le> e"
    using m by (simp add: ulp_shift_def bit_length_scaled)
  then have "(2::int) ^ ulp_shift (m * 2 ^ e) dvd 2 ^ e" by (rule pow2_dvd_pow2)
  then have "(2::int) ^ ulp_shift (m * 2 ^ e) dvd m * 2 ^ e" by (rule dvd_mult)
  then have "round_half_even (m * 2 ^ e) (2 ^ ulp_shift (m * 2 ^ e)) = m * 2 ^ e"
    by (intro rhe_exact) simp_all
  then show ?thesis by (simp add: s rhe_exact)
qed

text \<open>
  A rounded magnitude is representable: it lies on the grid of its own binade.
\<close>

lemma rounded_representable:
  assumes a: "0 \<le> a"
  shows "round_half_even a (2 ^ ulp_shift a)
           mod 2 ^ ulp_shift (round_half_even a (2 ^ ulp_shift a)) = 0"
proof -
  let ?s = "ulp_shift a"
  let ?v = "round_half_even a (2 ^ ?s)"
  have dv: "2 ^ ?s dvd ?v"
    by (simp add: round_half_even_def Let_def)
  have up: "?v \<le> 2 ^ bit_length a" by (rule rhe_upper[OF a])
  show ?thesis
  proof (cases "?v = 2 ^ bit_length a")
    case True
    have "ulp_shift (2 ^ bit_length a) \<le> bit_length a"
      by (simp add: ulp_shift_def bit_length_pow2)
    then have "(2::int) ^ ulp_shift (2 ^ bit_length a) dvd 2 ^ bit_length a"
      by (rule pow2_dvd_pow2)
    with True show ?thesis by (simp add: dvd_eq_mod_eq_0)
  next
    case False
    with up have lt: "?v < 2 ^ bit_length a" by simp
    have "0 \<le> ?v" by (rule rhe_nonneg[OF a])
    from bit_length_lt_pow2[OF this lt] have "ulp_shift ?v \<le> ?s"
      by (simp add: ulp_shift_def)
    then have "(2::int) ^ ulp_shift ?v dvd 2 ^ ?s" by (rule pow2_dvd_pow2)
    then have "2 ^ ulp_shift ?v dvd ?v" using dv by (rule dvd_trans)
    then show ?thesis by (simp add: dvd_eq_mod_eq_0)
  qed
qed

subsection \<open>Rounding to a float\<close>

lemma round_double_not_NaN [simp]: "round_double k \<noteq> NaN"
  by (simp add: round_double_def Let_def)

text \<open>
  Floats are closed under the model's operations.
\<close>

lemma is_double_round_double: "is_double (round_double k)"
proof -
  let ?v = "round_half_even \<bar>k\<bar> (2 ^ ulp_shift \<bar>k\<bar>)"
  have r: "?v mod 2 ^ ulp_shift ?v = 0" by (rule rounded_representable) simp
  have n: "0 \<le> ?v" by (rule rhe_nonneg) simp
  then have m: "\<bar>?v\<bar> = ?v" "\<bar>- ?v\<bar> = ?v" by simp_all
  show ?thesis
    unfolding round_double_def Let_def
    by (simp only: is_double.simps m r split: if_splits) simp
qed

lemma is_double_fadd: "is_double x \<Longrightarrow> is_double y \<Longrightarrow> is_double (fadd x y)"
  by (cases x; cases y) (simp_all add: is_double_round_double del: is_double.simps(1))



text \<open>
  Rounding commutes with scaling by a power of two as long as the result stays below the
  overflow threshold, so a sum of scaled literals can be rounded on its short significand.
\<close>

lemma round_double_scaled:
  assumes m: "0 < m" and b: "bit_length m + e < 2098"
  shows "round_double (m * 2 ^ e) = Fin (round_half_even m (2 ^ ulp_shift m) * 2 ^ e)"
    and "round_double (- (m * 2 ^ e)) = Fin (- (round_half_even m (2 ^ ulp_shift m) * 2 ^ e))"
proof -
  let ?v = "round_half_even m (2 ^ ulp_shift m)"
  from m have "?v \<le> 2 ^ bit_length m" by (intro rhe_upper) simp
  then have "?v * 2 ^ e \<le> 2 ^ bit_length m * 2 ^ e" by (rule mult_right_mono) simp
  also have "\<dots> = 2 ^ (bit_length m + e)" by (simp add: power_add)
  also have "\<dots> < 2 ^ 2098" using b by (intro power_strict_increasing) simp_all
  finally have lt: "\<not> 2 ^ 2098 \<le> ?v * 2 ^ e" by simp
  have pos: "0 < m * 2 ^ e" using m by simp
  show "round_double (m * 2 ^ e) = Fin (?v * 2 ^ e)"
    using pos lt by (simp add: round_double_def Let_def round_magnitude_scaled[OF m])
  show "round_double (- (m * 2 ^ e)) = Fin (- (?v * 2 ^ e))"
    using pos lt by (simp add: round_double_def Let_def round_magnitude_scaled[OF m])
qed

lemma round_double_small:
  assumes "0 < m" and "bit_length m \<le> 53" and "bit_length m + e < 2098"
  shows "round_double (m * 2 ^ e) = scaled m e" and "round_double (- (m * 2 ^ e)) = scaled (- m) e"
proof -
  from assms(2) have "ulp_shift m = 0" by (simp add: ulp_shift_def)
  then have "round_half_even m (2 ^ ulp_shift m) = m" by (simp add: rhe_exact)
  with round_double_scaled[OF assms(1,3)]
  show "round_double (m * 2 ^ e) = scaled m e" "round_double (- (m * 2 ^ e)) = scaled (- m) e"
    by (simp_all add: scaled_def)
qed

subsection \<open>Literals\<close>

lemma scaled_eq_iff [simp]: "scaled a e = scaled b e \<longleftrightarrow> a = b"
  by (simp add: scaled_def)

lemma units_scaled [simp]: "units (scaled m e) = m * 2 ^ e"
  by (simp add: scaled_def)


lemma is_double_scaled:
  assumes "0 < m" and "bit_length m \<le> 53" and "bit_length m + e < 2098"
  shows "is_double (scaled m e)"
  using is_double_round_double[of "m * 2 ^ e"] round_double_small(1)[OF assms] by simp


lemma dval_scaled: "e \<le> 1074 \<Longrightarrow> dval (scaled m e) = real_of_int m / 2 ^ (1074 - e)"
proof -
  assume e: "e \<le> 1074"
  then have "(1074 - e) + e = 1074" by simp
  then have "(2::real) ^ 1074 = 2 ^ ((1074 - e) + e)" by (simp only:)
  also have "\<dots> = 2 ^ (1074 - e) * 2 ^ e" by (rule power_add)
  finally have p: "(2::real) ^ 1074 = 2 ^ (1074 - e) * 2 ^ e" .
  show ?thesis unfolding dval_def scaled_def units.simps p by simp
qed



lemma tenth_bit_lengths:
  "bit_length 3602879701896397 = 52"
  "bit_length 7205759403792794 = 53"
  "bit_length 10808639105689191 = 54"
  "bit_length 14411518807585589 = 54"
  "bit_length 18014398509481985 = 55"
  "bit_length 21617278211378381 = 55"
  "bit_length 25220157913274777 = 55"
  "bit_length 28823037615171173 = 55"
  "bit_length 32425917317067569 = 55"
  "bit_length 36028797018963965 = 55"
  "bit_length 36028797018963970 = 56"
  by code_simp+

lemma bit_length_literals:
  "bit_length 5404319552844595 = 53"
  by code_simp

text \<open>
  The literals denote the floats they are meant to: each is representable and is the
  literal's decimal value to within half a unit in the last place.
\<close>

lemma literals_are_floats:
  "is_double f_zero" "is_double f_one" "is_double f_tenth" "is_double f_fifteen_hundredths"
  unfolding f_one_def f_tenth_def f_fifteen_hundredths_def
  by (simp add: f_zero_def ulp_shift_def,
      (rule is_double_scaled;
        simp add: bit_length_1 tenth_bit_lengths bit_length_literals)+)

lemma literal_values:
  "dval f_zero = 0" "dval f_one = 1"
  "\<bar>dval f_tenth - 1 / 10\<bar> \<le> 1 / 2 ^ 57"
  "\<bar>dval f_fifteen_hundredths - 15 / 100\<bar> \<le> 1 / 2 ^ 56"
  unfolding f_one_def f_tenth_def f_fifteen_hundredths_def
  by (simp_all add: dval_scaled f_zero_def dval_def)


section \<open>Properties of the device stub\<close>


lemma ticks_stage: "stage (ticks xs d) = stage d"
  by (induction xs arbitrary: d) (simp_all add: tick_def Let_def)



text \<open>
  Every age that calls with float arguments can reach is a float.
\<close>

lemma reachable_age_is_float:
  assumes "is_double (age d)" and "\<forall>a \<in> set args. case a of None \<Rightarrow> True | Some dt \<Rightarrow> is_double dt"
  shows "is_double (age (ticks args d))"
  using assms
proof (induction args arbitrary: d)
  case Nil
  then show ?case by simp
next
  case (Cons a args)
  have "is_double (age (fst (tick a d)))"
  proof (cases a)
    case None
    with Cons.prems(1) literals_are_floats(2) show ?thesis
      by (simp add: tick_def Let_def is_double_fadd)
  next
    case (Some dt)
    with Cons.prems show ?thesis by (simp add: tick_def Let_def is_double_fadd)
  qed
  with Cons.IH Cons.prems(2) show ?case by simp
qed


subsection \<open>Repeated ticks\<close>











subsection \<open>The stage\<close>

text \<open>
  Claim C3. After construction and any sequence of \<open>tick\<close> calls, with or without argument,
  the \<open>stage\<close> field is \<open>"Neonate"\<close>; a further call leaves it so and reports it in the
  snapshot.
\<close>

theorem stage_stays_Neonate:
  "stage (ticks args init) = ''Neonate'' \<and>
   stage (fst (tick a (ticks args init))) = ''Neonate'' \<and>
   snd (tick a (ticks args init)) ''stage'' = Some (PyStr ''Neonate'')"
  by (simp add: ticks_stage init_def tick_def Let_def)

subsection \<open>Monotonicity of the age\<close>




subsection \<open>The default argument and determinism\<close>

text \<open>
  Claim C8. For every device state, \<open>tick()\<close> gives the same new state and the same
  returned dict as \<open>tick(1.0)\<close>.
\<close>

theorem tick_default_is_one:
  "tick None d = tick (Some f_one) d"
  by (simp add: tick_def)




section \<open>Properties of the configuration loader\<close>

lemma load_dotenv_apply:
  "load_dotenv dotenv env k = (case env k of Some v \<Rightarrow> Some v | None \<Rightarrow> dotenv k)"
  by (simp add: load_dotenv_def map_add_def)


lemma bit_length_2592000: "bit_length 2592000 = 22"
  by code_simp

text \<open>
  \<open>float(2592000)\<close> is exact.
\<close>

lemma float_of_int_2592000: "float_of_int 2592000 = Inr (scaled 2592000 1074)"
proof -
  have "round_double (2592000 * 2 ^ 1074) = scaled 2592000 1074"
    by (rule round_double_small(1)) (simp_all add: bit_length_2592000)
  then show ?thesis by (simp add: float_of_int_def scaled_def)
qed



subsection \<open>The defaults\<close>

text \<open>
  Claim C5, as stated, fails: with an empty process environment and a \<open>.env\<close> file that
  holds the line \<open>SKIN_MODE=X\<close>, \<open>load_dotenv()\<close> sets the variable before the module
  reads it, and \<open>SKIN_MODE\<close> is \<open>"X"\<close>, not the default \<open>"BSS"\<close>.
\<close>

theorem dotenv_overrides_default:
  "config_module Map.empty Map.empty [''SKIN_MODE'' \<mapsto> ''X''] Map.empty =
     Inr (default_config\<lparr>SKIN_MODE := PyStr ''X''\<rparr>) \<and>
   default_config\<lparr>SKIN_MODE := PyStr ''X''\<rparr> \<noteq> default_config"
  by (simp add: config_module_def load_dotenv_apply getenv_def
      float_of_int_2592000 default_config_def)

text \<open>
  Claim C5, amended. When none of the seven names is set in the process environment nor
  defined by the \<open>.env\<close> file that \<open>load_dotenv()\<close> reads, the loader yields exactly the
  stated defaults, whatever else the environment holds.
\<close>

theorem defaults_when_nothing_is_set:
  assumes "\<forall>k \<in> set config_keys. env0 k = None \<and> dotenv k = None"
  shows "config_module float_of_str int_of_str dotenv env0 = Inr default_config"
  using assms
  by (simp add: config_module_def config_keys_def load_dotenv_apply getenv_def
      float_of_int_2592000 default_config_def)

text \<open>
  Claim C5, the amended statement for an environment that sets \<open>HOME\<close> and a \<open>.env\<close>
  file that sets \<open>EDITOR\<close>.
\<close>

theorem defaults_when_nothing_is_set_witness:
  "config_module Map.empty Map.empty [''EDITOR'' \<mapsto> ''vi''] [''HOME'' \<mapsto> ''/root'']
     = Inr default_config"
  using defaults_when_nothing_is_set
    [of "[''HOME'' \<mapsto> ''/root'']" "[''EDITOR'' \<mapsto> ''vi'']" Map.empty Map.empty]
  by (simp add: config_keys_def)

subsection \<open>Failure of the coercions\<close>








subsection \<open>Values from the .env file\<close>





section \<open>Properties of the bootstrap directories\<close>

subsection \<open>Walking a path\<close>











subsection \<open>Creating a directory and its ancestors\<close>












subsection \<open>Idempotence\<close>




end
